theory Spec2Isabelle
  imports Main "HOL-Library.Sublist"
begin

text \<open>
  A model of \<open>scripts/ripper.mjs\<close>: the display name of a plugin directory, the load hook
  of the plugin that generates the \<open>~pluginNatives\<close> module, and the run of the six builds
  followed by the rewrite of \<open>renderer.js\<close>. The definitions come first, the lemmas and the
  claims after them.
\<close>

section \<open>JavaScript strings and the string primitives the script uses\<close>

text \<open>
  A JavaScript string is modelled as a \<^typ>\<open>string\<close>, one \<^typ>\<open>char\<close> per code unit; the
  model covers names and file contents made of ASCII characters. An exception thrown (or a
  promise rejected) is a value \<open>Inl e\<close> of a sum type.
\<close>

datatype error =
    TypeError       \<comment> \<open>a property read on \<open>undefined\<close> or \<open>null\<close>\<close>
  | ReaddirError    \<comment> \<open>\<open>readdir\<close> rejected\<close>
  | FetchError      \<comment> \<open>\<open>fetch\<close> rejected, or the body was not JSON\<close>
  | ReadError       \<comment> \<open>\<open>readFileSync\<close> threw\<close>
  | WriteError      \<comment> \<open>\<open>writeFileSync\<close> threw\<close>
  | SyntaxError     \<comment> \<open>the generated module text is rejected when it is parsed\<close>

definition toUpperCase_char :: "char \<Rightarrow> char" where
  \<comment> \<open>the letters \<open>a\<close> to \<open>z\<close> go to \<open>A\<close> to \<open>Z\<close>, every other character stays\<close>
  "toUpperCase_char c =
     (case map_of (zip ''abcdefghijklmnopqrstuvwxyz'' ''ABCDEFGHIJKLMNOPQRSTUVWXYZ'') c of
        None \<Rightarrow> c
      | Some u \<Rightarrow> u)"

definition toUpperCase :: "string \<Rightarrow> string" where
  \<comment> \<open>\<open>s.toUpperCase()\<close> on ASCII text\<close>
  "toUpperCase s = map toUpperCase_char s"

fun split_str :: "char \<Rightarrow> string \<Rightarrow> string list" where
  \<comment> \<open>\<open>s.split(sep)\<close> for a one-character separator: never the empty array\<close>
  "split_str sep [] = [[]]"
| "split_str sep (c # cs) =
     (if c = sep then [] # split_str sep cs
      else (case split_str sep cs of
              [] \<Rightarrow> [[c]]
            | seg # segs \<Rightarrow> (c # seg) # segs))"

fun join_str :: "string \<Rightarrow> string list \<Rightarrow> string" where
  \<comment> \<open>\<open>parts.join(sep)\<close>\<close>
  "join_str sep [] = []"
| "join_str sep [x] = x"
| "join_str sep (x # y # ys) = x @ sep @ join_str sep (y # ys)"

definition slice_from :: "int \<Rightarrow> 'a list \<Rightarrow> 'a list" where
  \<comment> \<open>\<open>s.slice(start)\<close>: a negative start counts from the end, clamped at 0\<close>
  "slice_from start s =
     (if start < 0 then drop (nat (max 0 (int (length s) + start))) s
      else drop (nat start) s)"

definition slice_0_to :: "int \<Rightarrow> 'a list \<Rightarrow> 'a list" where
  \<comment> \<open>\<open>a.slice(0, end)\<close>: a negative end counts from the end, clamped at 0\<close>
  "slice_0_to e a =
     (if e < 0 then take (nat (max 0 (int (length a) + e))) a
      else take (nat e) a)"

subsection \<open>The display name of a plugin directory\<close>

text \<open>
  Lines 74 to 77 of \<open>scripts/ripper.mjs\<close>. \<open>p[0]\<close> is \<open>undefined\<close> for the empty string,
  and calling \<open>toUpperCase\<close> on it throws a \<open>TypeError\<close>.
\<close>

definition cleanPluginName :: "string \<Rightarrow> error + string" where
  "cleanPluginName p =
     (let nameParts = split_str (CHR ''.'') p;
          namePartsWithoutTarget =
            (if length nameParts = 1 then nameParts else slice_0_to (- 1) nameParts)
      in case p of
           [] \<Rightarrow> Inl TypeError
         | c # _ \<Rightarrow>
             Inr (toUpperCase [c] @ slice_from 1 (join_str ''.'' namePartsWithoutTarget)))"

text \<open>
  The derivation as the specification words it: split on the dot, drop the last segment
  when there is more than one, rejoin with the dot, capitalise the first character.
\<close>

definition capitalize :: "string \<Rightarrow> string" where
  "capitalize s = (case s of [] \<Rightarrow> [] | c # cs \<Rightarrow> toUpperCase [c] @ cs)"

definition displayName_spec :: "string \<Rightarrow> string" where
  "displayName_spec p =
     (let segments = split_str (CHR ''.'') p;
          kept = (if length segments > 1 then butlast segments else segments)
      in capitalize (join_str ''.'' kept))"

section \<open>The plugin-natives resolver\<close>

subsection \<open>Paths, numbers and string literals\<close>

definition path_join :: "string list \<Rightarrow> string" where
  \<comment> \<open>\<open>path.join\<close> on POSIX: the non-empty segments joined by a slash. The segments the
      script passes (fixed names and the entries \<open>readdir\<close> returns) hold no \<open>.\<close> or \<open>..\<close>
      component and no doubled slash, so the normalisation step changes nothing.\<close>
  "path_join segs = join_str ''/'' (filter (\<lambda>s. s \<noteq> []) segs)"

fun string_of_nat :: "nat \<Rightarrow> string" where
  \<comment> \<open>the decimal digits of a counter, as a template literal prints it\<close>
  "string_of_nat n =
     (if n < 10 then [''0123456789'' ! n]
      else string_of_nat (n div 10) @ [''0123456789'' ! (n mod 10)])"

declare string_of_nat.simps [simp del]

definition json_escape :: "char \<Rightarrow> string" where
  \<comment> \<open>one character inside a \<open>JSON.stringify\<close> string literal\<close>
  "json_escape c =
     (if c = CHR 0x22 then [CHR 0x5C, CHR 0x22]
      else if c = CHR 0x5C then [CHR 0x5C, CHR 0x5C]
      else if c = CHR 0x08 then [CHR 0x5C, CHR ''b'']
      else if c = CHR 0x0C then [CHR 0x5C, CHR ''f'']
      else if c = CHR 0x0A then [CHR 0x5C, CHR ''n'']
      else if c = CHR 0x0D then [CHR 0x5C, CHR ''r'']
      else if c = CHR 0x09 then [CHR 0x5C, CHR ''t'']
      else if (of_char c :: nat) < 32
        then [CHR 0x5C, CHR ''u'', CHR ''0'', CHR ''0'',
              ''0123456789abcdef'' ! ((of_char c :: nat) div 16),
              ''0123456789abcdef'' ! ((of_char c :: nat) mod 16)]
      else [c])"

definition JSON_stringify :: "string \<Rightarrow> string" where
  "JSON_stringify s = [CHR 0x22] @ concat (map json_escape s) @ [CHR 0x22]"

subsection \<open>The file system\<close>

text \<open>
  \<open>existsAsync\<close> is imported from \<open>build/common.mjs\<close>, which is not among the sources; it is
  taken as the file system's answer for a path, a boolean. \<open>readdir\<close> resolves to the
  entries of a directory in the file system's order, or rejects (\<open>None\<close>).
\<close>

record filesystem =
  existsAsync :: "string \<Rightarrow> bool"
  readdir :: "string \<Rightarrow> string list option"

subsection \<open>The load hook\<close>

definition pluginDirs :: "string list" where
  "pluginDirs = [''plugins'', ''userplugins'']"

record scan_state =
  code :: string
  natives :: string
  i :: nat

definition import_line :: "string \<Rightarrow> string \<Rightarrow> string \<Rightarrow> string" where
  \<comment> \<open>the template literal of line 80\<close>
  "import_line mod_name dir p =
     ''import * as '' @ mod_name @ '' from '' @ [CHR 0x22] @ ''./'' @ dir @ ''/'' @ p
       @ ''/native'' @ [CHR 0x22] @ '';'' @ [CHR 0x0A]"

definition export_entry :: "string \<Rightarrow> string \<Rightarrow> string" where
  \<comment> \<open>the template literal of line 81\<close>
  "export_entry name mod_name = JSON_stringify name @ '':'' @ mod_name @ '','' @ [CHR 0x0A]"

fun scanPlugins :: "filesystem \<Rightarrow> string \<Rightarrow> string list \<Rightarrow> scan_state \<Rightarrow> error + scan_state" where
  \<comment> \<open>the inner loop, lines 67 to 83\<close>
  "scanPlugins fs dir [] st = Inr st"
| "scanPlugins fs dir (p # ps) st =
     (let dirPath = path_join [''src'', dir];
          nativePath = path_join [dirPath, p, ''native.ts''];
          indexNativePath = path_join [dirPath, p, ''native/index.ts'']
      in if \<not> existsAsync fs nativePath \<and> \<not> existsAsync fs indexNativePath
         then scanPlugins fs dir ps st
         else (case cleanPluginName p of
                 Inl e \<Rightarrow> Inl e
               | Inr name \<Rightarrow>
                   (let mod_name = ''p'' @ string_of_nat (i st)
                    in scanPlugins fs dir ps
                         (st\<lparr>code := code st @ import_line mod_name dir p,
                             natives := natives st @ export_entry name mod_name,
                             i := i st + 1\<rparr>))))"

fun scanDirs :: "filesystem \<Rightarrow> string list \<Rightarrow> scan_state \<Rightarrow> error + scan_state" where
  \<comment> \<open>the outer loop, lines 63 to 84\<close>
  "scanDirs fs [] st = Inr st"
| "scanDirs fs (dir # dirs) st =
     (let dirPath = path_join [''src'', dir]
      in if \<not> existsAsync fs dirPath then scanDirs fs dirs st
         else (case readdir fs dirPath of
                 None \<Rightarrow> Inl ReaddirError
               | Some plugins \<Rightarrow>
                   (case scanPlugins fs dir plugins st of
                      Inl e \<Rightarrow> Inl e
                    | Inr st' \<Rightarrow> scanDirs fs dirs st')))"

record load_result =
  contents :: string
  resolveDir :: string

definition onLoad :: "filesystem \<Rightarrow> error + load_result" where
  "onLoad fs =
     (case scanDirs fs pluginDirs \<lparr>code = [], natives = [CHR 0x0A], i = 0\<rparr> of
        Inl e \<Rightarrow> Inl e
      | Inr st \<Rightarrow>
          Inr \<lparr>contents = code st @ ''export default {'' @ natives st @ ''};'',
               resolveDir = ''./src''\<rparr>)"

subsection \<open>The modules a scan discovers, and the object the generated text denotes\<close>

text \<open>
  A structured account of what the two loops append: one record per discovered native
  module, in scan order, holding the root, the plugin directory, the display name and the
  local binding name. \<open>scan_as_modules\<close> below shows that the text the loops build is
  exactly the rendering of these records.
\<close>

record native_module =
  plugin_root :: string
  plugin :: string
  displayName :: string
  mod_alias :: string

definition hasNative :: "filesystem \<Rightarrow> string \<Rightarrow> string \<Rightarrow> bool" where
  "hasNative fs dir p \<longleftrightarrow>
     existsAsync fs (path_join [path_join [''src'', dir], p, ''native.ts''])
     \<or> existsAsync fs (path_join [path_join [''src'', dir], p, ''native/index.ts''])"

fun modulesOfPlugins :: "filesystem \<Rightarrow> string \<Rightarrow> string list \<Rightarrow> nat \<Rightarrow> error + native_module list" where
  "modulesOfPlugins fs dir [] k = Inr []"
| "modulesOfPlugins fs dir (p # ps) k =
     (if \<not> hasNative fs dir p then modulesOfPlugins fs dir ps k
      else (case cleanPluginName p of
              Inl e \<Rightarrow> Inl e
            | Inr name \<Rightarrow>
                (case modulesOfPlugins fs dir ps (k + 1) of
                   Inl e \<Rightarrow> Inl e
                 | Inr ms \<Rightarrow>
                     Inr (\<lparr>plugin_root = dir, plugin = p, displayName = name,
                           mod_alias = ''p'' @ string_of_nat k\<rparr> # ms))))"

fun modulesOfDirs :: "filesystem \<Rightarrow> string list \<Rightarrow> nat \<Rightarrow> error + native_module list" where
  "modulesOfDirs fs [] k = Inr []"
| "modulesOfDirs fs (dir # dirs) k =
     (if \<not> existsAsync fs (path_join [''src'', dir]) then modulesOfDirs fs dirs k
      else (case readdir fs (path_join [''src'', dir]) of
              None \<Rightarrow> Inl ReaddirError
            | Some plugins \<Rightarrow>
                (case modulesOfPlugins fs dir plugins k of
                   Inl e \<Rightarrow> Inl e
                 | Inr ms \<Rightarrow>
                     (case modulesOfDirs fs dirs (k + length ms) of
                        Inl e \<Rightarrow> Inl e
                      | Inr ms' \<Rightarrow> Inr (ms @ ms')))))"

definition discovered :: "filesystem \<Rightarrow> error + native_module list" where
  "discovered fs = modulesOfDirs fs pluginDirs 0"

definition import_of :: "native_module \<Rightarrow> string" where
  "import_of m = import_line (mod_alias m) (plugin_root m) (plugin m)"

definition export_of :: "native_module \<Rightarrow> string" where
  "export_of m = export_entry (displayName m) (mod_alias m)"

definition module_specifier :: "native_module \<Rightarrow> string" where
  \<comment> \<open>the module the import statement binds the alias to\<close>
  "module_specifier m = ''./'' @ plugin_root m @ ''/'' @ plugin m @ ''/native''"

definition render :: "native_module list \<Rightarrow> load_result" where
  "render ms =
     \<lparr>contents = concat (map import_of ms) @ ''export default {'' @ [CHR 0x0A]
                   @ concat (map export_of ms) @ ''};'',
      resolveDir = ''./src''\<rparr>"

definition export_object :: "native_module list \<Rightarrow> error + (string \<rightharpoonup> native_module)" where
  \<comment> \<open>The own properties of the exported object literal, one property \<open>"name":alias\<close> per
      module, as JavaScript reads it. The properties are evaluated in order and a key
      written twice keeps the value written last. The key \<open>__proto__\<close> is special: written
      once it sets the prototype and adds no property, written twice it makes the literal a
      syntax error. Each key is given the module whose import statement binds the alias.\<close>
  "export_object ms =
     (let props = map (\<lambda>m. (displayName m, m)) ms
      in if 2 \<le> length (filter (\<lambda>(k, m). k = ''__proto__'') props) then Inl SyntaxError
         else Inr (map_of (rev (filter (\<lambda>(k, m). k \<noteq> ''__proto__'') props))))"

definition emit :: "native_module list \<Rightarrow> scan_state \<Rightarrow> scan_state" where
  "emit ms st =
     st\<lparr>code := code st @ concat (map import_of ms),
        natives := natives st @ concat (map export_of ms),
        i := i st + length ms\<rparr>"

section \<open>The build orchestrator and the post-processing step\<close>

fun indexOf :: "'a list \<Rightarrow> 'a list \<Rightarrow> int" where
  \<comment> \<open>\<open>s.indexOf(needle)\<close>, written \<open>indexOf needle s\<close>: the first position at which the needle
      starts, or -1\<close>
  "indexOf needle [] = (if needle = [] then 0 else - 1)"
| "indexOf needle (c # cs) =
     (if prefix needle (c # cs) then 0
      else (let r = indexOf needle cs in if r < 0 then - 1 else r + 1))"

datatype console_line =
    ConsoleError string          \<comment> \<open>\<open>console.error(text)\<close>\<close>
  | ConsoleWarn string error     \<comment> \<open>\<open>console.warn(tag, err)\<close>\<close>
  | ConsoleLog string            \<comment> \<open>\<open>console.log(text)\<close>\<close>
  | Uncaught error               \<comment> \<open>the runtime's report of a rejection that nothing handles\<close>

fun is_warning :: "console_line \<Rightarrow> bool" where
  "is_warning (ConsoleWarn tag e) = True"
| "is_warning l = False"

fun is_uncaught :: "console_line \<Rightarrow> bool" where
  "is_uncaught (Uncaught e) = True"
| "is_uncaught l = False"

record release =
  release_name :: "string option"  \<comment> \<open>the \<open>name\<close> property; \<open>None\<close> when it is \<open>null\<close> or absent\<close>

datatype feed_response =
    Rejected                \<comment> \<open>\<open>fetch\<close> rejected, or the body was not JSON\<close>
  | ErrorObject             \<comment> \<open>a JSON object that is not an array, such as an API error message\<close>
  | Releases "release list" \<comment> \<open>a JSON array of release objects\<close>

definition LATEST_HASH :: "feed_response \<Rightarrow> error + string option" where
  \<comment> \<open>line 203: \<open>x[0]?.name.slice(9)\<close>; the value \<open>undefined\<close> is \<open>None\<close>\<close>
  "LATEST_HASH x =
     (case x of
        Rejected \<Rightarrow> Inl FetchError
      | ErrorObject \<Rightarrow> Inr None
      | Releases [] \<Rightarrow> Inr None
      | Releases (r # _) \<Rightarrow>
          (case release_name r of
             None \<Rightarrow> Inl TypeError
           | Some n \<Rightarrow> Inr (Some (slice_from 9 n))))"

record environment =
  watch :: bool                      \<comment> \<open>\<open>commonOpts.watch\<close>\<close>
  builds :: "string option list"     \<comment> \<open>the build promises in the order they settle: \<open>None\<close> for
                                         fulfilled, \<open>Some msg\<close> for rejected with that message\<close>
  feed :: feed_response              \<comment> \<open>what the release feed answers\<close>
  renderer_js :: "string option"     \<comment> \<open>the artifact's content; \<open>None\<close> when it cannot be read\<close>
  write_fails :: bool                \<comment> \<open>whether \<open>writeFileSync\<close> throws\<close>
  after_failed_write :: "string option"
                                     \<comment> \<open>what the artifact holds after a write that threw: the
                                         old content when the open failed, an empty or partial
                                         file when the failure came after the truncating open\<close>
  RENDERER_PATH :: string

record outcome =
  exitStatus :: nat
  console :: "console_line list"
  renderer_after :: "string option"

fun first_rejection :: "string option list \<Rightarrow> string option" where
  \<comment> \<open>\<open>Promise.all\<close> rejects with the reason of the first promise that rejects\<close>
  "first_rejection [] = None"
| "first_rejection (None # bs) = first_rejection bs"
| "first_rejection (Some msg # bs) = Some msg"

definition marker :: string where
  "marker = ''// Standalone:''"

definition banner :: "string option \<Rightarrow> string" where
  \<comment> \<open>the template literal of line 207; \<open>undefined\<close> prints as the word\<close>
  "banner h =
     ''// PAYLOAD\<newline>// Vencord '' @ (case h of None \<Rightarrow> ''undefined'' | Some v \<Rightarrow> v) @ ''\<newline>''"

definition rewritten :: "string option \<Rightarrow> string \<Rightarrow> string" where
  "rewritten h file_contents = banner h @ slice_from (indexOf marker file_contents) file_contents"

definition postProcess :: "environment \<Rightarrow> string option \<Rightarrow> console_line list \<times> string option" where
  \<comment> \<open>the \<open>try\<close> block of lines 205 to 210: what it prints and what the artifact holds
      afterwards. \<open>writeFileSync\<close> opens the file for writing, which truncates it, before
      it writes; what a write that throws leaves behind is given by the environment.\<close>
  "postProcess env h =
     (case renderer_js env of
        None \<Rightarrow> ([ConsoleWarn ''[RIPPER]'' ReadError], None)
      | Some file_contents \<Rightarrow>
          if write_fails env
          then ([ConsoleWarn ''[RIPPER]'' WriteError], after_failed_write env)
          else ([], Some (rewritten h file_contents)))"

definition run :: "environment \<Rightarrow> outcome" where
  \<comment> \<open>Lines 94 to 212. \<open>process.exitCode\<close> starts unset, which exits with status 0. The
      \<open>await\<close> of line 203 stands outside the \<open>try\<close> block: when it rejects, the module's
      evaluation rejects and the runtime ends the process with status 1.\<close>
  "run env =
     (let (errors, exitCode) =
            (case first_rejection (builds env) of
               None \<Rightarrow> ([], 0)
             | Some msg \<Rightarrow>
                 ([ConsoleError ''Build failed'', ConsoleError msg],
                  if \<not> watch env then 1 else 0))
      in case LATEST_HASH (feed env) of
           Inl e \<Rightarrow>
             \<lparr>exitStatus = 1, console = errors @ [Uncaught e],
              renderer_after = renderer_js env\<rparr>
         | Inr h \<Rightarrow>
             (let (warnings, file) = postProcess env h
              in \<lparr>exitStatus = exitCode,
                  console = errors @ warnings
                    @ [ConsoleLog (''[RIPPER] renderer.js is at '' @ [CHR 0x27]
                                   @ RENDERER_PATH env @ [CHR 0x27])],
                  renderer_after = file\<rparr>))"

section \<open>Example file systems and runs\<close>

definition env_no_marker :: environment where
  \<comment> \<open>six builds succeed, the feed answers, the artifact lacks the marker line\<close>
  "env_no_marker =
     \<lparr>watch = False, builds = [None, None, None, None, None, None],
      feed = Releases [\<lparr>release_name = Some ''DevBuild 1a2b3c4''\<rparr>],
      renderer_js = Some ''var x;'', write_fails = False,
      after_failed_write = None,
      RENDERER_PATH = ''/repo/dist/renderer.js''\<rparr>"

definition env_fetch_fails :: environment where
  \<comment> \<open>six builds succeed, the request to the release feed fails\<close>
  "env_fetch_fails =
     \<lparr>watch = False, builds = [None, None, None, None, None, None],
      feed = Rejected,
      renderer_js = Some ''// Vencord 0\<newline>// Standalone: false\<newline>var x;'', write_fails = False,
      after_failed_write = None,
      RENDERER_PATH = ''/repo/dist/renderer.js''\<rparr>"

definition env_missing_file :: environment where
  \<comment> \<open>six builds succeed, the feed answers, the artifact is missing\<close>
  "env_missing_file =
     \<lparr>watch = False, builds = [None, None, None, None, None, None],
      feed = Releases [\<lparr>release_name = Some ''DevBuild 1a2b3c4''\<rparr>],
      renderer_js = None, write_fails = False,
      after_failed_write = None,
      RENDERER_PATH = ''/repo/dist/renderer.js''\<rparr>"

definition env_empty_feed :: environment where
  \<comment> \<open>the feed answers with the empty array\<close>
  "env_empty_feed =
     \<lparr>watch = False, builds = [None, None, None, None, None, None],
      feed = Releases [],
      renderer_js = Some ''// Vencord 0\<newline>// Standalone: false\<newline>var x;'', write_fails = False,
      after_failed_write = None,
      RENDERER_PATH = ''/repo/dist/renderer.js''\<rparr>"

definition fs_abc :: filesystem where
  \<comment> \<open>a tree with the plugins \<open>a\<close>, \<open>b.discordDesktop\<close> and \<open>c\<close> under \<open>src/plugins\<close>, the first with
      \<open>native.ts\<close>, the second with \<open>native/index.ts\<close>, and no \<open>src/userplugins\<close>\<close>
  "fs_abc =
     \<lparr>existsAsync = (\<lambda>pth. pth \<in> set [''src/plugins'', ''src/plugins/a/native.ts'',
                                       ''src/plugins/b.discordDesktop/native/index.ts'']),
      readdir = (\<lambda>pth. if pth = ''src/plugins'' then Some [''a'', ''b.discordDesktop'', ''c'']
                       else None)\<rparr>"




definition fs_userplugins :: filesystem where
  \<comment> \<open>no \<open>src/plugins\<close>; \<open>src/userplugins\<close> lists \<open>c\<close> (no native module) and \<open>a\<close> (with
      \<open>native.ts\<close>)\<close>
  "fs_userplugins =
     \<lparr>existsAsync = (\<lambda>pth. pth \<in> set [''src/userplugins'', ''src/userplugins/a/native.ts'']),
      readdir = (\<lambda>pth. if pth = ''src/userplugins'' then Some [''c'', ''a''] else None)\<rparr>"

section \<open>Properties of the display name\<close>

lemma split_str_nonempty: "split_str sep s \<noteq> []"
  by (induction s) (auto split: list.splits)

lemma join_split: "join_str [sep] (split_str sep s) = s"
proof (induction s)
  case Nil
  then show ?case by simp
next
  case (Cons c cs)
  show ?case
  proof (cases "c = sep")
    case True
    then show ?thesis using Cons split_str_nonempty [of sep cs]
      by (cases "split_str sep cs") auto
  next
    case False
    obtain seg segs where s: "split_str sep cs = seg # segs"
      using split_str_nonempty [of sep cs] by (cases "split_str sep cs") auto
    then show ?thesis using Cons False by (cases segs) auto
  qed
qed

lemma split_str_no_sep: "seg \<in> set (split_str sep s) \<Longrightarrow> sep \<notin> set seg"
proof (induction s arbitrary: seg)
  case Nil
  then show ?case by simp
next
  case (Cons c cs)
  then show ?case
    by (auto split: if_splits list.splits)
qed

lemma split_str_single: "sep \<notin> set s \<Longrightarrow> split_str sep s = [s]"
  by (induction s) auto

lemma join_str_snoc:
  "xs \<noteq> [] \<Longrightarrow> join_str sep (xs @ [x]) = join_str sep xs @ sep @ x"
proof (induction xs)
  case Nil
  then show ?case by simp
next
  case (Cons a xs)
  then show ?case by (cases xs) auto
qed

lemma split_str_length_one: "length (split_str sep s) = 1 \<longleftrightarrow> sep \<notin> set s"
proof
  assume "length (split_str sep s) = 1"
  then obtain x where x: "split_str sep s = [x]"
    by (cases "split_str sep s") auto
  have "join_str [sep] (split_str sep s) = s" by (rule join_split)
  with x have "x = s" by simp
  moreover have "sep \<notin> set x" using split_str_no_sep [of x sep s] x by simp
  ultimately show "sep \<notin> set s" by simp
next
  assume "sep \<notin> set s"
  then show "length (split_str sep s) = 1" by (simp add: split_str_single)
qed

lemma split_str_decompose:
  assumes "length (split_str sep s) \<noteq> 1"
  shows "s = join_str [sep] (butlast (split_str sep s)) @ [sep] @ last (split_str sep s)"
    and "butlast (split_str sep s) \<noteq> []"
    and "sep \<notin> set (last (split_str sep s))"
proof -
  let ?xs = "split_str sep s"
  have ne: "?xs \<noteq> []" by (rule split_str_nonempty)
  with assms have "2 \<le> length ?xs" by (cases ?xs) (auto simp: Suc_le_eq)
  then show b: "butlast ?xs \<noteq> []" by (cases ?xs) auto
  have "?xs = butlast ?xs @ [last ?xs]" using ne by simp
  then have "join_str [sep] ?xs = join_str [sep] (butlast ?xs) @ [sep] @ last ?xs"
    using join_str_snoc [OF b, of "[sep]" "last ?xs"] by simp
  then show "s = join_str [sep] (butlast ?xs) @ [sep] @ last ?xs"
    by (simp add: join_split)
  show "sep \<notin> set (last ?xs)"
    using split_str_no_sep [of "last ?xs" sep s] ne by simp
qed

lemma toUpperCase_char_dot [simp]: "toUpperCase_char (CHR ''.'') = CHR ''.''"
  by (simp add: toUpperCase_char_def)

lemma slice_0_to_butlast: "slice_0_to (- 1) xs = butlast xs"
proof -
  have "nat (max 0 (int (length xs) - 1)) = length xs - 1" by (cases xs) auto
  then show ?thesis by (simp add: slice_0_to_def butlast_conv_take)
qed

lemma slice_from_1: "slice_from 1 s = drop 1 s"
  by (simp add: slice_from_def)

lemma cleanPluginName_single:
  assumes "CHR ''.'' \<notin> set p" "p \<noteq> []"
  shows "cleanPluginName p = Inr (capitalize p)"
proof -
  from assms(1) have "split_str (CHR ''.'') p = [p]" by (rule split_str_single)
  then show ?thesis using assms(2)
    by (cases p) (simp_all add: cleanPluginName_def capitalize_def slice_from_1)
qed

lemma cleanPluginName_general:
  assumes "p \<noteq> []"
  shows "cleanPluginName p =
           Inr (if hd p = CHR ''.'' \<and> CHR ''.'' \<notin> set (tl p) then ''.''
                else displayName_spec p)"
proof (cases "length (split_str (CHR ''.'') p) = 1")
  case True
  then have nodot: "CHR ''.'' \<notin> set p"
    using split_str_length_one [of "CHR ''.''" p] by simp
  with assms have "hd p \<noteq> CHR ''.''" by (cases p) auto
  moreover have "displayName_spec p = capitalize p"
    using True join_split [of "CHR ''.''" p] by (simp add: displayName_spec_def)
  ultimately show ?thesis using cleanPluginName_single [OF nodot assms] by simp
next
  case False
  let ?xs = "split_str (CHR ''.'') p"
  let ?wt = "join_str ''.'' (butlast ?xs)"
  from split_str_decompose [OF False]
  have p: "p = ?wt @ ''.'' @ last ?xs" and nd: "CHR ''.'' \<notin> set (last ?xs)"
    by simp_all
  have len: "length ?xs > 1" using False split_str_nonempty [of "CHR ''.''" p]
    by (cases ?xs) auto
  have spec: "displayName_spec p = capitalize ?wt"
    using len by (simp add: displayName_spec_def)
  obtain c cs where pc: "p = c # cs" using assms by (cases p) auto
  have code: "cleanPluginName p = Inr (toUpperCase [c] @ drop 1 ?wt)"
    using False pc by (simp add: cleanPluginName_def slice_0_to_butlast slice_from_1)
  show ?thesis
  proof (cases "?wt = []")
    case True
    with p have "p = CHR ''.'' # last ?xs" by simp
    with nd pc have "hd p = CHR ''.'' \<and> CHR ''.'' \<notin> set (tl p)" "c = CHR ''.''"
      by auto
    then show ?thesis using code True by (simp add: toUpperCase_def)
  next
    case False
    then obtain w ws where w: "?wt = w # ws" by (cases ?wt) auto
    with p have pw: "p = w # ws @ ''.'' @ last ?xs" by simp
    with pc have "c = w" by simp
    moreover have "CHR ''.'' \<in> set (tl p)" by (subst pw) simp
    ultimately show ?thesis using code spec w by (simp add: capitalize_def)
  qed
qed

lemma toUpperCase_char_cases:
  "toUpperCase_char c = c \<or>
   (c \<in> set ''abcdefghijklmnopqrstuvwxyz'' \<and> toUpperCase_char c \<in> set ''ABCDEFGHIJKLMNOPQRSTUVWXYZ'')"
proof (cases "map_of (zip ''abcdefghijklmnopqrstuvwxyz'' ''ABCDEFGHIJKLMNOPQRSTUVWXYZ'') c")
  case None
  then show ?thesis unfolding toUpperCase_char_def by simp
next
  case (Some u)
  then have "(c, u) \<in> set (zip ''abcdefghijklmnopqrstuvwxyz'' ''ABCDEFGHIJKLMNOPQRSTUVWXYZ'')"
    by (rule map_of_SomeD)
  then have "c \<in> set ''abcdefghijklmnopqrstuvwxyz''"
    and "u \<in> set ''ABCDEFGHIJKLMNOPQRSTUVWXYZ''"
    by (blast dest: set_zip_leftD, blast dest: set_zip_rightD)
  moreover have "toUpperCase_char c = u" unfolding toUpperCase_char_def using Some by simp
  ultimately show ?thesis by blast
qed

lemma toUpperCase_char_upper:
  "c \<in> set ''ABCDEFGHIJKLMNOPQRSTUVWXYZ'' \<Longrightarrow> toUpperCase_char c = c"
proof -
  assume "c \<in> set ''ABCDEFGHIJKLMNOPQRSTUVWXYZ''"
  then have "c \<notin> set ''abcdefghijklmnopqrstuvwxyz''" by auto
  then have "map_of (zip ''abcdefghijklmnopqrstuvwxyz'' ''ABCDEFGHIJKLMNOPQRSTUVWXYZ'') c = None"
    by (subst map_of_zip_is_None) simp_all
  then show ?thesis unfolding toUpperCase_char_def by simp
qed

lemma toUpperCase_char_idem: "toUpperCase_char (toUpperCase_char c) = toUpperCase_char c"
proof (cases "toUpperCase_char c = c")
  case True
  then show ?thesis by simp
next
  case False
  with toUpperCase_char_cases [of c]
  have "toUpperCase_char c \<in> set ''ABCDEFGHIJKLMNOPQRSTUVWXYZ''" by blast
  then show ?thesis by (rule toUpperCase_char_upper)
qed

lemma toUpperCase_char_eq_dot: "toUpperCase_char c = CHR ''.'' \<longleftrightarrow> c = CHR ''.''"
proof
  assume h: "toUpperCase_char c = CHR ''.''"
  have "CHR ''.'' \<notin> set ''ABCDEFGHIJKLMNOPQRSTUVWXYZ''" by simp
  with h toUpperCase_char_cases [of c] show "c = CHR ''.''" by metis
next
  assume "c = CHR ''.''"
  then show "toUpperCase_char c = CHR ''.''" by (simp add: toUpperCase_char_def)
qed

lemma capitalize_idem: "capitalize (capitalize s) = capitalize s"
  by (cases s) (simp_all add: capitalize_def toUpperCase_def toUpperCase_char_idem)

lemma capitalize_no_dot: "CHR ''.'' \<notin> set s \<Longrightarrow> CHR ''.'' \<notin> set (capitalize s)"
proof (cases s)
  case Nil
  then show ?thesis by (simp add: capitalize_def)
next
  case (Cons c cs)
  assume "CHR ''.'' \<notin> set s"
  with Cons have "c \<noteq> CHR ''.''" "CHR ''.'' \<notin> set cs" by auto
  then show ?thesis using Cons toUpperCase_char_eq_dot [of c]
    by (auto simp: capitalize_def toUpperCase_def)
qed

lemma capitalize_eq_Nil [simp]: "capitalize s = [] \<longleftrightarrow> s = []"
  by (cases s) (simp_all add: capitalize_def toUpperCase_def)

text \<open>
  Claim C3, as the code has it. For a non-empty directory name the display name is the
  result of the worded derivation (split on the dot, drop the last segment when there are
  several, rejoin, capitalise the first character), except for a name that is a dot followed
  by a dot-free segment: there the rejoined string is empty and the code still emits the
  capitalised first character of the directory name, the dot. \<open>foo.discordDesktop\<close> yields
  \<open>Foo\<close>.
\<close>

theorem cleanPluginName_follows_derivation:
  assumes "p \<noteq> []"
  shows "cleanPluginName p =
           Inr (if hd p = CHR ''.'' \<and> CHR ''.'' \<notin> set (tl p) then ''.''
                else displayName_spec p)
         \<and> cleanPluginName ''foo.discordDesktop'' = Inr ''Foo''"
proof
  show "cleanPluginName p =
          Inr (if hd p = CHR ''.'' \<and> CHR ''.'' \<notin> set (tl p) then ''.''
               else displayName_spec p)"
    using assms by (rule cleanPluginName_general)
  have "displayName_spec ''foo.discordDesktop'' = ''Foo''"
    by (simp add: displayName_spec_def capitalize_def toUpperCase_def toUpperCase_char_def)
  then show "cleanPluginName ''foo.discordDesktop'' = Inr ''Foo''"
    using cleanPluginName_general [of "''foo.discordDesktop''"] by simp
qed

theorem cleanPluginName_follows_derivation_witness:
  "''b.discordDesktop'' \<noteq> [] \<and> cleanPluginName ''b.discordDesktop'' = Inr ''B''
   \<and> ''.hidden'' \<noteq> [] \<and> cleanPluginName ''.hidden'' = Inr ''.''"
proof -
  have a: "''b.discordDesktop'' \<noteq> []" and b: "''.hidden'' \<noteq> []" by simp_all
  have "displayName_spec ''b.discordDesktop'' = ''B''"
    by (simp add: displayName_spec_def capitalize_def toUpperCase_def toUpperCase_char_def)
  then show ?thesis
    using cleanPluginName_follows_derivation [OF a] cleanPluginName_follows_derivation [OF b]
    by simp
qed

text \<open>
  Claim C3 as stated fails: the directory name \<open>.foo\<close> is not empty, the worded derivation
  gives the empty string (the only segment left after dropping \<open>foo\<close> is empty), and the
  code gives the one-character string holding a dot.
\<close>

theorem cleanPluginName_dot_name_counterexample:
  "''.foo'' \<noteq> [] \<and> displayName_spec ''.foo'' = [] \<and> cleanPluginName ''.foo'' = Inr ''.''
   \<and> cleanPluginName ''.foo'' \<noteq> Inr (displayName_spec ''.foo'')"
  by (simp add: displayName_spec_def capitalize_def cleanPluginName_def toUpperCase_def
      slice_0_to_def slice_from_def)

text \<open>
  Claim C7. On a single-segment name (non-empty, no dot) the derivation capitalises the
  first character, and applying it to its own result gives that result again; \<open>foo\<close>
  yields \<open>Foo\<close>, and \<open>Foo\<close> yields \<open>Foo\<close>.
\<close>

theorem cleanPluginName_idempotent_single_segment:
  assumes "CHR ''.'' \<notin> set n" and "n \<noteq> []"
  shows "(\<exists>m. cleanPluginName n = Inr m \<and> cleanPluginName m = Inr m)
         \<and> cleanPluginName ''foo'' = Inr ''Foo''
         \<and> cleanPluginName ''Foo'' = Inr ''Foo''"
proof -
  have 1: "cleanPluginName n = Inr (capitalize n)"
    using assms by (rule cleanPluginName_single)
  have "cleanPluginName (capitalize n) = Inr (capitalize (capitalize n))"
    using assms by (intro cleanPluginName_single capitalize_no_dot) simp_all
  then have 2: "cleanPluginName (capitalize n) = Inr (capitalize n)"
    by (simp add: capitalize_idem)
  from 1 2 have "\<exists>m. cleanPluginName n = Inr m \<and> cleanPluginName m = Inr m" by blast
  moreover have "cleanPluginName ''foo'' = Inr ''Foo''"
    using cleanPluginName_single [of "''foo''"]
    by (simp add: capitalize_def toUpperCase_def toUpperCase_char_def)
  moreover have "cleanPluginName ''Foo'' = Inr ''Foo''"
    using cleanPluginName_single [of "''Foo''"]
    by (simp add: capitalize_def toUpperCase_def toUpperCase_char_def)
  ultimately show ?thesis by blast
qed

theorem cleanPluginName_idempotent_single_segment_witness:
  "CHR ''.'' \<notin> set ''vencord'' \<and> ''vencord'' \<noteq> []
   \<and> cleanPluginName ''vencord'' = Inr ''Vencord''
   \<and> cleanPluginName ''Vencord'' = Inr ''Vencord''"
proof -
  have 1: "CHR ''.'' \<notin> set ''vencord''" and 2: "''vencord'' \<noteq> []" by simp_all
  have 3: "cleanPluginName ''vencord'' = Inr ''Vencord''"
    using cleanPluginName_single [OF 1 2]
    by (simp add: capitalize_def toUpperCase_def toUpperCase_char_def)
  from cleanPluginName_idempotent_single_segment [OF 1 2] 3
  have "cleanPluginName ''Vencord'' = Inr ''Vencord''" by auto
  with 1 2 3 show ?thesis by (intro conjI)
qed

section \<open>Properties of the load hook\<close>

subsection \<open>The generated text is the rendering of the discovered modules\<close>

lemma emit_Nil [simp]: "emit [] st = st"
  by (simp add: emit_def)

lemma emit_Cons:
  "emit (m # ms) st =
     emit ms (st\<lparr>code := code st @ import_of m, natives := natives st @ export_of m,
                  i := i st + 1\<rparr>)"
  by (simp add: emit_def)

lemma emit_append: "emit (ms @ ms') st = emit ms' (emit ms st)"
  by (simp add: emit_def)

lemma scanPlugins_as_modules:
  "scanPlugins fs dir ps st =
     (case modulesOfPlugins fs dir ps (i st) of
        Inl e \<Rightarrow> Inl e
      | Inr ms \<Rightarrow> Inr (emit ms st))"
proof (induction ps arbitrary: st)
  case Nil
  then show ?case by simp
next
  case (Cons p ps)
  show ?case
  proof (cases "hasNative fs dir p")
    case False
    then show ?thesis using Cons [of st] by (simp add: hasNative_def)
  next
    case True
    show ?thesis
    proof (cases "cleanPluginName p")
      case (Inl e)
      then show ?thesis using True by (auto simp: hasNative_def)
    next
      case (Inr name)
      let ?st = "st\<lparr>code := code st @ import_line (''p'' @ string_of_nat (i st)) dir p,
                    natives := natives st @ export_entry name (''p'' @ string_of_nat (i st)),
                    i := i st + 1\<rparr>"
      have "scanPlugins fs dir (p # ps) st = scanPlugins fs dir ps ?st"
        using True Inr by (auto simp: hasNative_def Let_def)
      also have "\<dots> = (case modulesOfPlugins fs dir ps (i st + 1) of
                          Inl e \<Rightarrow> Inl e | Inr ms \<Rightarrow> Inr (emit ms ?st))"
        using Cons [of ?st] by simp
      finally show ?thesis using True Inr
        by (simp add: emit_Cons import_of_def export_of_def split: sum.splits)
    qed
  qed
qed

lemma scanDirs_as_modules:
  "scanDirs fs dirs st =
     (case modulesOfDirs fs dirs (i st) of
        Inl e \<Rightarrow> Inl e
      | Inr ms \<Rightarrow> Inr (emit ms st))"
proof (induction dirs arbitrary: st)
  case Nil
  then show ?case by simp
next
  case (Cons dir dirs)
  show ?case
  proof (cases "existsAsync fs (path_join [''src'', dir])")
    case False
    then show ?thesis using Cons [of st] by simp
  next
    case True
    show ?thesis
    proof (cases "readdir fs (path_join [''src'', dir])")
      case None
      then show ?thesis using True by simp
    next
      case (Some plugins)
      show ?thesis
      proof (cases "modulesOfPlugins fs dir plugins (i st)")
        case (Inl e)
        then show ?thesis using True Some by (simp add: scanPlugins_as_modules)
      next
        case (Inr ms)
        have "i (emit ms st) = i st + length ms" by (simp add: emit_def)
        then show ?thesis using True Some Inr Cons [of "emit ms st"]
          by (simp add: scanPlugins_as_modules emit_append split: sum.splits)
      qed
    qed
  qed
qed

lemma scan_as_modules:
  "onLoad fs = (case discovered fs of Inl e \<Rightarrow> Inl e | Inr ms \<Rightarrow> Inr (render ms))"
  by (simp add: onLoad_def discovered_def scanDirs_as_modules render_def emit_def
      split: sum.splits)

subsection \<open>The aliases, the origin of every entry, and what is skipped\<close>






lemma modulesOfPlugins_member:
  "modulesOfPlugins fs dir ps k = Inr ms \<Longrightarrow> m \<in> set ms \<Longrightarrow>
     plugin_root m = dir \<and> plugin m \<in> set ps \<and> hasNative fs dir (plugin m)
     \<and> cleanPluginName (plugin m) = Inr (displayName m)"
proof (induction ps arbitrary: k ms)
  case Nil
  then show ?case by simp
next
  case (Cons p ps)
  show ?case
  proof (cases "hasNative fs dir p")
    case False
    then show ?thesis using Cons by auto
  next
    case True
    then obtain name ms' where
      ms: "ms = \<lparr>plugin_root = dir, plugin = p, displayName = name,
                    mod_alias = ''p'' @ string_of_nat k\<rparr> # ms'"
      and name: "cleanPluginName p = Inr name"
      and rest: "modulesOfPlugins fs dir ps (k + 1) = Inr ms'"
      using Cons.prems(1) by (auto split: sum.splits)
    show ?thesis
    proof (cases "m \<in> set ms'")
      case True
      from Cons.IH [OF rest True] show ?thesis by simp
    next
      case False
      with Cons.prems(2) ms have "m = \<lparr>plugin_root = dir, plugin = p, displayName = name,
                    mod_alias = ''p'' @ string_of_nat k\<rparr>" by simp
      then show ?thesis using \<open>hasNative fs dir p\<close> name by simp
    qed
  qed
qed

lemma modulesOfDirs_member:
  "modulesOfDirs fs dirs k = Inr ms \<Longrightarrow> m \<in> set ms \<Longrightarrow>
     plugin_root m \<in> set dirs
     \<and> existsAsync fs (path_join [''src'', plugin_root m])
     \<and> (\<exists>ps. readdir fs (path_join [''src'', plugin_root m]) = Some ps \<and> plugin m \<in> set ps)
     \<and> hasNative fs (plugin_root m) (plugin m)
     \<and> cleanPluginName (plugin m) = Inr (displayName m)"
proof (induction dirs arbitrary: k ms)
  case Nil
  then show ?case by simp
next
  case (Cons dir dirs)
  show ?case
  proof (cases "existsAsync fs (path_join [''src'', dir])")
    case False
    then show ?thesis using Cons by auto
  next
    case True
    then obtain plugins ms1 ms2 where
      ms: "ms = ms1 @ ms2"
      and listing: "readdir fs (path_join [''src'', dir]) = Some plugins"
      and one: "modulesOfPlugins fs dir plugins k = Inr ms1"
      and two: "modulesOfDirs fs dirs (k + length ms1) = Inr ms2"
      using Cons.prems(1) by (auto split: option.splits sum.splits)
    show ?thesis
    proof (cases "m \<in> set ms1")
      case True
      from modulesOfPlugins_member [OF one True] show ?thesis
        using \<open>existsAsync fs (path_join [''src'', dir])\<close> listing by simp
    next
      case False
      with Cons.prems(2) ms have "m \<in> set ms2" by simp
      from Cons.IH [OF two this] show ?thesis by simp
    qed
  qed
qed

lemma scanPlugins_skip:
  assumes "\<not> hasNative fs dir p"
  shows "scanPlugins fs dir (xs @ p # ys) st = scanPlugins fs dir (xs @ ys) st"
  using assms
  by (induction xs arbitrary: st) (simp_all add: hasNative_def Let_def split: sum.splits)

lemma scanDirs_skip:
  assumes "\<not> existsAsync fs (path_join [''src'', dir])"
  shows "scanDirs fs (ds @ dir # ds') st = scanDirs fs (ds @ ds') st"
  using assms
  by (induction ds arbitrary: st) (simp_all add: Let_def split: sum.splits option.splits)


lemma string_of_nat_digits:
  "string_of_nat 0 = ''0''" "string_of_nat 1 = ''1''" "string_of_nat (Suc 0) = ''1''"
  "string_of_nat 2 = ''2''" "string_of_nat (Suc (Suc 0)) = ''2''"
  by (subst string_of_nat.simps, simp)+

lemma cleanPluginName_examples:
  "cleanPluginName ''a'' = Inr ''A''"
  "cleanPluginName ''b.discordDesktop'' = Inr ''B''"
  "cleanPluginName ''x.a'' = Inr ''X''"
  "cleanPluginName ''x.b'' = Inr ''X''"
  "cleanPluginName ''x.c'' = Inr ''X''"
  "cleanPluginName ''__proto__.a'' = Inr ''__proto__''"
  "cleanPluginName ''__proto__.b'' = Inr ''__proto__''"
  by (simp_all add: cleanPluginName_def toUpperCase_def toUpperCase_char_def
      slice_0_to_def slice_from_def)

lemma three_plugins_modules:
  assumes "hasNative fs dir ''a''" "hasNative fs dir ''b.discordDesktop''"
    and "\<not> hasNative fs dir ''c''"
  shows "modulesOfPlugins fs dir [''a'', ''b.discordDesktop'', ''c''] 0 =
           Inr [\<lparr>plugin_root = dir, plugin = ''a'', displayName = ''A'', mod_alias = ''p0''\<rparr>,
                \<lparr>plugin_root = dir, plugin = ''b.discordDesktop'', displayName = ''B'',
                 mod_alias = ''p1''\<rparr>]"
  using assms by (simp add: cleanPluginName_examples string_of_nat_digits)

text \<open>
  Claim C4. Let one of the two plugin roots list \<open>a\<close>, \<open>b.discordDesktop\<close>, \<open>c\<close>, in that
  order, where \<open>a\<close> and \<open>b.discordDesktop\<close> have a native entry module and \<open>c\<close> has none, and
  let the other root be absent. Then the load hook returns the two import statements
  followed by the export of an object whose keys are exactly \<open>A\<close> and \<open>B\<close>: \<open>A\<close> is bound to the
  namespace imported from \<open>a\<close>, \<open>B\<close> to the one imported from \<open>b.discordDesktop\<close>, and nothing
  comes from \<open>c\<close>.
\<close>

theorem onLoad_three_plugins:
  assumes "dir \<in> set pluginDirs"
    and "\<forall>d\<in>set pluginDirs. d \<noteq> dir \<longrightarrow> \<not> existsAsync fs (path_join [''src'', d])"
    and "existsAsync fs (path_join [''src'', dir])"
    and "readdir fs (path_join [''src'', dir]) = Some [''a'', ''b.discordDesktop'', ''c'']"
    and "hasNative fs dir ''a''" and "hasNative fs dir ''b.discordDesktop''"
    and "\<not> hasNative fs dir ''c''"
  defines "ma \<equiv> \<lparr>plugin_root = dir, plugin = ''a'', displayName = ''A'', mod_alias = ''p0''\<rparr>"
    and "mb \<equiv> \<lparr>plugin_root = dir, plugin = ''b.discordDesktop'', displayName = ''B'',
                 mod_alias = ''p1''\<rparr>"
  shows "onLoad fs = Inr (render [ma, mb])
         \<and> contents (render [ma, mb]) =
             ''import * as p0 from \"./'' @ dir @ ''/a/native\";\<newline>''
             @ ''import * as p1 from \"./'' @ dir @ ''/b.discordDesktop/native\";\<newline>''
             @ ''export default {\<newline>\"A\":p0,\<newline>\"B\":p1,\<newline>};''
         \<and> (\<exists>obj. export_object [ma, mb] = Inr obj
                \<and> dom obj = {''A'', ''B''} \<and> obj ''A'' = Some ma \<and> obj ''B'' = Some mb)
         \<and> module_specifier ma = ''./'' @ dir @ ''/a/native''
         \<and> module_specifier mb = ''./'' @ dir @ ''/b.discordDesktop/native''
         \<and> (\<forall>m\<in>set [ma, mb]. plugin m \<noteq> ''c'')"
proof -
  have found: "modulesOfPlugins fs dir [''a'', ''b.discordDesktop'', ''c''] 0 = Inr [ma, mb]"
    unfolding ma_def mb_def using assms(5-7) by (rule three_plugins_modules)
  from assms(1) have "dir = ''plugins'' \<or> dir = ''userplugins''"
    by (simp add: pluginDirs_def)
  then have "discovered fs = Inr [ma, mb]"
  proof
    assume d: "dir = ''plugins''"
    with assms(2) have "\<not> existsAsync fs (path_join [''src'', ''userplugins''])"
      by (simp add: pluginDirs_def)
    then show ?thesis using d assms(3,4) found
      by (simp add: discovered_def pluginDirs_def)
  next
    assume d: "dir = ''userplugins''"
    with assms(2) have "\<not> existsAsync fs (path_join [''src'', ''plugins''])"
      by (simp add: pluginDirs_def)
    then show ?thesis using d assms(3,4) found
      by (simp add: discovered_def pluginDirs_def)
  qed
  then have "onLoad fs = Inr (render [ma, mb])" by (simp add: scan_as_modules)
  moreover have "contents (render [ma, mb]) =
             ''import * as p0 from \"./'' @ dir @ ''/a/native\";\<newline>''
             @ ''import * as p1 from \"./'' @ dir @ ''/b.discordDesktop/native\";\<newline>''
             @ ''export default {\<newline>\"A\":p0,\<newline>\"B\":p1,\<newline>};''"
    by (simp add: render_def import_of_def export_of_def import_line_def export_entry_def
        JSON_stringify_def json_escape_def ma_def mb_def)
  moreover have "\<exists>obj. export_object [ma, mb] = Inr obj
                \<and> dom obj = {''A'', ''B''} \<and> obj ''A'' = Some ma \<and> obj ''B'' = Some mb"
  proof -
    have "export_object [ma, mb] = Inr (map_of [(''B'', mb), (''A'', ma)])"
      by (simp add: export_object_def ma_def mb_def)
    moreover have "dom (map_of [(''B'', mb), (''A'', ma)]) = {''A'', ''B''}" by auto
    ultimately show ?thesis by simp
  qed
  moreover have "module_specifier ma = ''./'' @ dir @ ''/a/native''"
    "module_specifier mb = ''./'' @ dir @ ''/b.discordDesktop/native''"
    by (simp_all add: module_specifier_def ma_def mb_def)
  moreover have "\<forall>m\<in>set [ma, mb]. plugin m \<noteq> ''c''"
    by (simp add: ma_def mb_def)
  ultimately show ?thesis by blast
qed

lemma fs_abc_facts:
  "existsAsync fs_abc (path_join [''src'', ''plugins''])"
  "\<not> existsAsync fs_abc (path_join [''src'', ''userplugins''])"
  "readdir fs_abc (path_join [''src'', ''plugins'']) = Some [''a'', ''b.discordDesktop'', ''c'']"
  "hasNative fs_abc ''plugins'' ''a''"
  "hasNative fs_abc ''plugins'' ''b.discordDesktop''"
  "\<not> hasNative fs_abc ''plugins'' ''c''"
  by (simp_all add: fs_abc_def hasNative_def path_join_def)

theorem onLoad_three_plugins_witness:
  "''plugins'' \<in> set pluginDirs
   \<and> pluginDirs = [''plugins'', ''userplugins'']
   \<and> \<not> existsAsync fs_abc (path_join [''src'', ''userplugins''])
   \<and> existsAsync fs_abc (path_join [''src'', ''plugins''])
   \<and> readdir fs_abc (path_join [''src'', ''plugins'']) = Some [''a'', ''b.discordDesktop'', ''c'']
   \<and> hasNative fs_abc ''plugins'' ''a'' \<and> hasNative fs_abc ''plugins'' ''b.discordDesktop''
   \<and> \<not> hasNative fs_abc ''plugins'' ''c''
   \<and> map_sum id contents (onLoad fs_abc) =
         Inr (''import * as p0 from \"./plugins/a/native\";\<newline>''
              @ ''import * as p1 from \"./plugins/b.discordDesktop/native\";\<newline>''
              @ ''export default {\<newline>\"A\":p0,\<newline>\"B\":p1,\<newline>};'')"
proof -
  have 1: "''plugins'' \<in> set pluginDirs" by (simp add: pluginDirs_def)
  have 2: "\<forall>d\<in>set pluginDirs. d \<noteq> ''plugins'' \<longrightarrow> \<not> existsAsync fs_abc (path_join [''src'', d])"
    using fs_abc_facts(2) by (simp add: pluginDirs_def)
  show ?thesis
    using 1 fs_abc_facts
      onLoad_three_plugins [OF 1 2 fs_abc_facts(1) fs_abc_facts(3) fs_abc_facts(4-6)]
    by (simp add: pluginDirs_def)
qed





lemma discovered_fs_userplugins:
  "discovered fs_userplugins =
     Inr [\<lparr>plugin_root = ''userplugins'', plugin = ''a'', displayName = ''A'',
           mod_alias = ''p0''\<rparr>]"
  by (simp add: discovered_def pluginDirs_def fs_userplugins_def hasNative_def path_join_def
      cleanPluginName_examples string_of_nat_digits)




text \<open>
  Claim C6. A root that does not exist is passed over: the scan goes on as if the root
  were not in the list, with the same text, counter and error status, whatever \<open>readdir\<close>
  would have answered for it; when neither root exists the hook returns the module with no
  import and an empty object. A plugin directory with neither \<open>native.ts\<close> nor
  \<open>native/index.ts\<close> is passed over in the same way, wherever it stands in the listing, and
  even if its name is empty. Hence every import line and export entry comes from an
  existing root and from a plugin that has one of the two files.
\<close>

theorem missing_root_or_native_is_skipped:
  "(\<not> existsAsync fs (path_join [''src'', dir]) \<longrightarrow>
      scanDirs fs (ds @ dir # ds') st = scanDirs fs (ds @ ds') st)
   \<and> (\<not> existsAsync fs (path_join [path_join [''src'', dir], p, ''native.ts''])
        \<and> \<not> existsAsync fs (path_join [path_join [''src'', dir], p, ''native/index.ts'']) \<longrightarrow>
      scanPlugins fs dir (xs @ p # ys) st = scanPlugins fs dir (xs @ ys) st)
   \<and> ((\<forall>d\<in>set pluginDirs. \<not> existsAsync fs (path_join [''src'', d])) \<longrightarrow>
      onLoad fs = Inr \<lparr>contents = ''export default {\<newline>};'', resolveDir = ''./src''\<rparr>)
   \<and> (onLoad fs = Inr r \<longrightarrow>
      (\<exists>ms. discovered fs = Inr ms \<and> r = render ms
         \<and> (\<forall>m\<in>set ms. existsAsync fs (path_join [''src'', plugin_root m])
                \<and> hasNative fs (plugin_root m) (plugin m))))"
proof (intro conjI impI)
  assume "\<not> existsAsync fs (path_join [''src'', dir])"
  then show "scanDirs fs (ds @ dir # ds') st = scanDirs fs (ds @ ds') st"
    by (rule scanDirs_skip)
next
  assume "\<not> existsAsync fs (path_join [path_join [''src'', dir], p, ''native.ts''])
        \<and> \<not> existsAsync fs (path_join [path_join [''src'', dir], p, ''native/index.ts''])"
  then have "\<not> hasNative fs dir p" by (simp add: hasNative_def)
  then show "scanPlugins fs dir (xs @ p # ys) st = scanPlugins fs dir (xs @ ys) st"
    by (rule scanPlugins_skip)
next
  assume "\<forall>d\<in>set pluginDirs. \<not> existsAsync fs (path_join [''src'', d])"
  then show "onLoad fs = Inr \<lparr>contents = ''export default {\<newline>};'', resolveDir = ''./src''\<rparr>"
    by (simp add: onLoad_def pluginDirs_def)
next
  assume r: "onLoad fs = Inr r"
  then obtain ms where ms: "discovered fs = Inr ms" "r = render ms"
    by (auto simp: scan_as_modules split: sum.splits)
  have "\<forall>m\<in>set ms. existsAsync fs (path_join [''src'', plugin_root m])
                \<and> hasNative fs (plugin_root m) (plugin m)"
    using modulesOfDirs_member [of fs pluginDirs 0 ms] ms(1) by (simp add: discovered_def)
  with ms show "\<exists>ms. discovered fs = Inr ms \<and> r = render ms
         \<and> (\<forall>m\<in>set ms. existsAsync fs (path_join [''src'', plugin_root m])
                \<and> hasNative fs (plugin_root m) (plugin m))" by blast
qed

theorem missing_root_or_native_is_skipped_witness:
  "\<not> existsAsync fs_userplugins (path_join [''src'', ''plugins''])
   \<and> scanDirs fs_userplugins ([] @ ''plugins'' # [''userplugins''])
        \<lparr>code = [], natives = ''\<newline>'', i = 0\<rparr>
      = scanDirs fs_userplugins ([] @ [''userplugins'']) \<lparr>code = [], natives = ''\<newline>'', i = 0\<rparr>
   \<and> \<not> existsAsync fs_userplugins
          (path_join [path_join [''src'', ''userplugins''], ''c'', ''native.ts''])
   \<and> \<not> existsAsync fs_userplugins
          (path_join [path_join [''src'', ''userplugins''], ''c'', ''native/index.ts''])
   \<and> scanPlugins fs_userplugins ''userplugins'' ([] @ ''c'' # [''a''])
        \<lparr>code = [], natives = ''\<newline>'', i = 0\<rparr>
      = scanPlugins fs_userplugins ''userplugins'' ([] @ [''a''])
          \<lparr>code = [], natives = ''\<newline>'', i = 0\<rparr>
   \<and> \<not> existsAsync \<lparr>existsAsync = (\<lambda>pth. False), readdir = (\<lambda>pth. None)\<rparr>
          (path_join [''src'', ''plugins''])
   \<and> \<not> existsAsync \<lparr>existsAsync = (\<lambda>pth. False), readdir = (\<lambda>pth. None)\<rparr>
          (path_join [''src'', ''userplugins''])
   \<and> onLoad \<lparr>existsAsync = (\<lambda>pth. False), readdir = (\<lambda>pth. None)\<rparr>
      = Inr \<lparr>contents = ''export default {\<newline>};'', resolveDir = ''./src''\<rparr>
   \<and> onLoad fs_userplugins
      = Inr (render [\<lparr>plugin_root = ''userplugins'', plugin = ''a'', displayName = ''A'',
                      mod_alias = ''p0''\<rparr>])"
proof -
  have 1: "\<not> existsAsync fs_userplugins (path_join [''src'', ''plugins''])"
    by (simp add: fs_userplugins_def path_join_def)
  have 2: "\<not> existsAsync fs_userplugins
          (path_join [path_join [''src'', ''userplugins''], ''c'', ''native.ts''])
     \<and> \<not> existsAsync fs_userplugins
          (path_join [path_join [''src'', ''userplugins''], ''c'', ''native/index.ts''])"
    by (simp add: fs_userplugins_def path_join_def)
  have 3: "onLoad fs_userplugins
      = Inr (render [\<lparr>plugin_root = ''userplugins'', plugin = ''a'', displayName = ''A'',
                      mod_alias = ''p0''\<rparr>])"
    by (simp add: scan_as_modules discovered_fs_userplugins)
  show ?thesis
    using 1 2 3
      missing_root_or_native_is_skipped [where fs = fs_userplugins and dir = "''plugins''"
        and ds = "[]" and ds' = "[''userplugins'']"
        and st = "\<lparr>code = [], natives = ''\<newline>'', i = 0\<rparr>"]
      missing_root_or_native_is_skipped [where fs = fs_userplugins and dir = "''userplugins''"
        and p = "''c''" and xs = "[]" and ys = "[''a'']"
        and st = "\<lparr>code = [], natives = ''\<newline>'', i = 0\<rparr>"]
      missing_root_or_native_is_skipped
        [where fs = "\<lparr>existsAsync = (\<lambda>pth. False), readdir = (\<lambda>pth. None)\<rparr>"]
    by simp
qed



section \<open>Properties of the run\<close>

lemma indexOf_range: "indexOf needle s = - 1 \<or> 0 \<le> indexOf needle s"
  by (induction s) (auto simp: Let_def)

lemma indexOf_absent_iff: "indexOf needle s = - 1 \<longleftrightarrow> \<not> sublist needle s"
proof (induction s)
  case Nil
  then show ?case by simp
next
  case (Cons c cs)
  show ?case
  proof (cases "prefix needle (c # cs)")
    case True
    then show ?thesis by (simp add: sublist_Cons_right)
  next
    case False
    have "indexOf needle (c # cs) = - 1 \<longleftrightarrow> indexOf needle cs = - 1"
      using False indexOf_range [of needle cs] by (auto simp: Let_def)
    then show ?thesis using False Cons by (simp add: sublist_Cons_right)
  qed
qed

lemma indexOf_found:
  "0 \<le> indexOf needle s \<Longrightarrow> prefix needle (slice_from (indexOf needle s) s)"
proof (induction s)
  case Nil
  then show ?case by (auto simp: slice_from_def split: if_splits)
next
  case (Cons c cs)
  show ?case
  proof (cases "prefix needle (c # cs)")
    case True
    then show ?thesis by (simp add: slice_from_def)
  next
    case False
    with Cons.prems have r: "0 \<le> indexOf needle cs"
      by (auto simp: Let_def split: if_splits)
    with False have "indexOf needle (c # cs) = indexOf needle cs + 1" by (simp add: Let_def)
    moreover have "nat (indexOf needle cs + 1) = Suc (nat (indexOf needle cs))"
      using r by simp
    ultimately show ?thesis using Cons.IH [OF r] r by (simp add: slice_from_def)
  qed
qed

lemma slice_from_minus_one:
  "slice_from (- 1) s = (if s = [] then [] else [last s])"
proof (cases s rule: rev_cases)
  case Nil
  then show ?thesis by (simp add: slice_from_def)
next
  case (snoc xs x)
  then show ?thesis by (simp add: slice_from_def)
qed

lemma first_rejection_None: "first_rejection bs = None \<longleftrightarrow> set bs \<subseteq> {None}"
  by (induction bs rule: first_rejection.induct) auto

lemma run_when_fetch_resolves:
  assumes "LATEST_HASH (feed env) = Inr h"
  shows "exitStatus (run env) = (if first_rejection (builds env) \<noteq> None \<and> \<not> watch env then 1 else 0)"
    and "renderer_after (run env) = snd (postProcess env h)"
    and "filter is_warning (console (run env)) = fst (postProcess env h)"
    and "filter is_uncaught (console (run env)) = []"
  using assms
  by (auto simp: run_def postProcess_def split: option.splits prod.splits)

lemma run_when_fetch_rejects:
  assumes "LATEST_HASH (feed env) = Inl e"
  shows "exitStatus (run env) = 1"
    and "renderer_after (run env) = renderer_js env"
    and "filter is_warning (console (run env)) = []"
    and "filter is_uncaught (console (run env)) = [Uncaught e]"
  using assms
  by (auto simp: run_def split: option.splits prod.splits)

text \<open>
  Claim C1, as the code has it. Take a run in which every build task succeeds and line
  203 yields a version value. Then the exit status is 0. If the artifact cannot be read
  (the file is missing), the failure is caught, a warning is logged and the artifact is
  left as it was. If the artifact is read and written, nothing is caught and no warning
  is logged, whether or not the marker line is present: the artifact is rewritten to the
  banner followed by the slice of the old content.
\<close>

theorem postProcess_failures_are_warnings:
  assumes "set (builds env) \<subseteq> {None}" and "LATEST_HASH (feed env) = Inr h"
  shows "exitStatus (run env) = 0
         \<and> (renderer_js env = None \<longrightarrow>
               filter is_warning (console (run env)) = [ConsoleWarn ''[RIPPER]'' ReadError]
               \<and> renderer_after (run env) = None)
         \<and> (\<forall>c. renderer_js env = Some c \<and> \<not> write_fails env \<longrightarrow>
               filter is_warning (console (run env)) = []
               \<and> renderer_after (run env) = Some (rewritten h c))
         \<and> filter is_uncaught (console (run env)) = []"
proof -
  have "first_rejection (builds env) = None"
    using assms(1) by (simp add: first_rejection_None)
  then have "exitStatus (run env) = 0"
    using run_when_fetch_resolves(1) [OF assms(2)] by simp
  then show ?thesis
    using run_when_fetch_resolves(2-4) [OF assms(2)]
    by (auto simp: postProcess_def)
qed

theorem postProcess_failures_are_warnings_witness:
  "set (builds env_missing_file) \<subseteq> {None}
   \<and> LATEST_HASH (feed env_missing_file) = Inr (Some ''1a2b3c4'')
   \<and> renderer_js env_missing_file = None
   \<and> exitStatus (run env_missing_file) = 0
   \<and> filter is_warning (console (run env_missing_file)) = [ConsoleWarn ''[RIPPER]'' ReadError]
   \<and> renderer_after (run env_missing_file) = None"
proof -
  have 1: "set (builds env_missing_file) \<subseteq> {None}"
    by (simp add: env_missing_file_def)
  have 2: "LATEST_HASH (feed env_missing_file) = Inr (Some ''1a2b3c4'')"
    by (simp add: env_missing_file_def LATEST_HASH_def slice_from_def)
  have 3: "renderer_js env_missing_file = None"
    by (simp add: env_missing_file_def)
  show ?thesis using 1 2 3 postProcess_failures_are_warnings [OF 1 2] by simp
qed

text \<open>
  Claim C1 as stated fails in two ways. With an artifact that lacks the marker line
  (\<open>env_no_marker\<close>) nothing is caught: no warning is logged and the artifact is replaced
  by the banner and the last character of the old content. With a failing request to the
  release feed (\<open>env_fetch_fails\<close>) the rejection is not caught by the \<open>try\<close> block: no
  warning is logged and the exit status is 1.
\<close>

theorem postProcess_failures_counterexample:
  "set (builds env_no_marker) \<subseteq> {None}
   \<and> renderer_js env_no_marker = Some ''var x;''
   \<and> indexOf marker ''var x;'' = - 1
   \<and> renderer_after (run env_no_marker) = Some ''// PAYLOAD\<newline>// Vencord 1a2b3c4\<newline>;''
   \<and> renderer_after (run env_no_marker) \<noteq> renderer_js env_no_marker
   \<and> filter is_warning (console (run env_no_marker)) = []
   \<and> set (builds env_fetch_fails) \<subseteq> {None}
   \<and> feed env_fetch_fails = Rejected
   \<and> filter is_warning (console (run env_fetch_fails)) = []
   \<and> exitStatus (run env_fetch_fails) = 1"
  by (simp add: env_no_marker_def env_fetch_fails_def run_def LATEST_HASH_def postProcess_def
      rewritten_def banner_def marker_def slice_from_def)

text \<open>
  Claim C2 at the failing input \<open>env_fetch_fails\<close>: all six build tasks succeed, watch mode
  is off, and the request to the release feed fails. The rejection of line 203 is not
  handled, and the exit status is 1 where the claim says 0.
\<close>

theorem exit_status_fetch_failure:
  "builds env_fetch_fails = [None, None, None, None, None, None]
   \<and> first_rejection (builds env_fetch_fails) = None
   \<and> \<not> watch env_fetch_fails
   \<and> LATEST_HASH (feed env_fetch_fails) = Inl FetchError
   \<and> console (run env_fetch_fails) = [Uncaught FetchError]
   \<and> exitStatus (run env_fetch_fails) = 1"
  by (simp add: env_fetch_fails_def run_def LATEST_HASH_def)

text \<open>
  Claim C9. When the artifact is read and written and its content does not contain the
  marker string, the search gives -1, the slice keeps the last character of the content
  (nothing when the content is empty), nothing is caught or logged as a warning, and the
  artifact becomes the two banner lines followed by that character.
\<close>

theorem missing_marker_keeps_last_character:
  assumes "\<not> sublist marker c"
    and "renderer_js env = Some c" and "\<not> write_fails env"
    and "LATEST_HASH (feed env) = Inr h"
  shows "indexOf marker c = - 1
         \<and> slice_from (indexOf marker c) c = (if c = [] then [] else [last c])
         \<and> renderer_after (run env)
             = Some (''// PAYLOAD\<newline>// Vencord '' @ (case h of None \<Rightarrow> ''undefined'' | Some v \<Rightarrow> v)
                     @ ''\<newline>'' @ (if c = [] then [] else [last c]))
         \<and> filter is_warning (console (run env)) = []
         \<and> filter is_uncaught (console (run env)) = []"
proof -
  have 1: "indexOf marker c = - 1" using assms(1) by (simp add: indexOf_absent_iff)
  then have 2: "slice_from (indexOf marker c) c = (if c = [] then [] else [last c])"
    by (simp only: slice_from_minus_one)
  have "postProcess env h = ([], Some (rewritten h c))"
    using assms(2,3) by (simp add: postProcess_def)
  then have "renderer_after (run env) = Some (rewritten h c)"
    and "filter is_warning (console (run env)) = []"
    using run_when_fetch_resolves(2,3) [OF assms(4)] by simp_all
  moreover have "rewritten h c
     = ''// PAYLOAD\<newline>// Vencord '' @ (case h of None \<Rightarrow> ''undefined'' | Some v \<Rightarrow> v)
                     @ ''\<newline>'' @ (if c = [] then [] else [last c])"
    using 2 by (simp add: rewritten_def banner_def)
  ultimately show ?thesis
    using 1 2 run_when_fetch_resolves(4) [OF assms(4)] by simp
qed

theorem missing_marker_keeps_last_character_witness:
  "\<not> sublist marker ''var x;''
   \<and> renderer_js env_no_marker = Some ''var x;'' \<and> \<not> write_fails env_no_marker
   \<and> LATEST_HASH (feed env_no_marker) = Inr (Some ''1a2b3c4'')
   \<and> indexOf marker ''var x;'' = - 1
   \<and> renderer_after (run env_no_marker) = Some ''// PAYLOAD\<newline>// Vencord 1a2b3c4\<newline>;''"
proof -
  have "indexOf marker ''var x;'' = - 1" by (simp add: marker_def)
  then have 1: "\<not> sublist marker ''var x;''"
    using indexOf_absent_iff [of marker "''var x;''"] by blast
  have 2: "renderer_js env_no_marker = Some ''var x;''" and 3: "\<not> write_fails env_no_marker"
    by (simp_all add: env_no_marker_def)
  have 4: "LATEST_HASH (feed env_no_marker) = Inr (Some ''1a2b3c4'')"
    by (simp add: env_no_marker_def LATEST_HASH_def slice_from_def)
  from missing_marker_keeps_last_character [OF 1 2 3 4]
  have 5: "indexOf marker ''var x;'' = - 1"
    and 6: "renderer_after (run env_no_marker) = Some ''// PAYLOAD\<newline>// Vencord 1a2b3c4\<newline>;''"
    by simp_all
  from 1 2 3 4 5 6 show ?thesis by (intro conjI)
qed

text \<open>
  Claim C10. When the release feed answers with the empty array, line 203 yields
  \<open>undefined\<close> without an error; nothing is left uncaught, and an artifact that is read and
  written gets the banner with the word \<open>undefined\<close> in place of a version tag.
\<close>

theorem empty_feed_gives_undefined_banner:
  assumes "feed env = Releases []"
  shows "LATEST_HASH (feed env) = Inr None
         \<and> filter is_uncaught (console (run env)) = []
         \<and> (\<forall>c. renderer_js env = Some c \<and> \<not> write_fails env \<longrightarrow>
               filter is_warning (console (run env)) = []
               \<and> renderer_after (run env)
                   = Some (''// PAYLOAD\<newline>// Vencord undefined\<newline>''
                           @ slice_from (indexOf marker c) c))"
proof -
  have 1: "LATEST_HASH (feed env) = Inr None" using assms by (simp add: LATEST_HASH_def)
  show ?thesis
    using 1 run_when_fetch_resolves(2-4) [OF 1]
    by (auto simp: postProcess_def rewritten_def banner_def)
qed

theorem empty_feed_gives_undefined_banner_witness:
  "feed env_empty_feed = Releases []
   \<and> renderer_js env_empty_feed = Some ''// Vencord 0\<newline>// Standalone: false\<newline>var x;''
   \<and> \<not> write_fails env_empty_feed
   \<and> renderer_after (run env_empty_feed)
       = Some ''// PAYLOAD\<newline>// Vencord undefined\<newline>// Standalone: false\<newline>var x;''"
proof -
  have 1: "feed env_empty_feed = Releases []" by (simp add: env_empty_feed_def)
  have 2: "renderer_js env_empty_feed = Some ''// Vencord 0\<newline>// Standalone: false\<newline>var x;''"
    and 3: "\<not> write_fails env_empty_feed"
    by (simp_all add: env_empty_feed_def)
  have 4: "slice_from (indexOf marker ''// Vencord 0\<newline>// Standalone: false\<newline>var x;'')
             ''// Vencord 0\<newline>// Standalone: false\<newline>var x;''
           = ''// Standalone: false\<newline>var x;''"
    by (simp add: marker_def slice_from_def)
  show ?thesis
    using 1 2 3 4 empty_feed_gives_undefined_banner [OF 1] by simp
qed

end
